theory Spec2Isabelle
  imports Complex_Main "HOL-Library.Log_Nat"
begin

section \<open>Python strings\<close>

text \<open>
  A Python \<open>str\<close> is modelled as a \<open>string\<close>, each \<open>char\<close> standing for one
  code point below 256. \<open>isspace\<close> lists the code points below 256 that
  \<open>str.isspace\<close> accepts (the separators of \<open>str.split()\<close> and of
  \<open>str.strip()\<close>): tab, line feed, vertical tab, form feed, carriage return,
  the four information separators, the space, NEL and the no-break space.
\<close>

definition isspace :: "char \<Rightarrow> bool" where
  "isspace c = (of_char c \<in> {9, 10, 11, 12, 13, 28, 29, 30, 31, 32, 133, 160 :: nat})"

text \<open>
  \<open>s.split()\<close>: the maximal runs of non-space characters, in order. \<open>split_aux w cs\<close>
  scans \<open>cs\<close> with the word \<open>w\<close> read so far.
\<close>

fun split_aux :: "string \<Rightarrow> string \<Rightarrow> string list" where
  "split_aux w [] = (if w = [] then [] else [w])"
| "split_aux w (c # cs) =
     (if isspace c then (if w = [] then split_aux [] cs else w # split_aux [] cs)
      else split_aux (w @ [c]) cs)"

definition split :: "string \<Rightarrow> string list" where
  "split s = split_aux [] s"

text \<open>\<open>s.strip()\<close>: leading and trailing space characters removed.\<close>

definition strip :: "string \<Rightarrow> string" where
  "strip s = rev (dropWhile isspace (rev (dropWhile isspace s)))"

text \<open>\<open>sep.join(xs)\<close>.\<close>

fun join :: "string \<Rightarrow> string list \<Rightarrow> string" where
  "join sep [] = []"
| "join sep [x] = x"
| "join sep (x # y # ys) = x @ sep @ join sep (y # ys)"

section \<open>Errors and indexing\<close>

datatype error = IndexError | TypeError | ValueError

text \<open>
  \<open>xs[i]\<close> on a Python list: a negative index counts from the end, an index outside
  the list raises \<open>IndexError\<close>.
\<close>

definition py_index :: "'a list \<Rightarrow> int \<Rightarrow> error + 'a" where
  "py_index xs i =
     (let j = (if i < 0 then i + int (length xs) else i)
      in if j < 0 \<or> int (length xs) \<le> j then Inl IndexError else Inr (xs ! nat j))"

section \<open>Python floats\<close>

text \<open>
  A finite Python float is modelled as the real number it stands for, and every
  float operation returns the exact result rounded to binary64: to 53 significant
  bits, to nearest, ties to even. \<open>binade x\<close> is the exponent \<open>e\<close> with
  \<open>2 ^ e \<le> x < 2 ^ (e + 1)\<close>. The exponent range of binary64 is not modelled:
  the quantities below are counts of words in a sentence combined with small
  constants, far from overflow and from the subnormal range.
\<close>

definition round_half_even :: "real \<Rightarrow> int" where
  "round_half_even x =
     (let f = \<lfloor>x\<rfloor>; r = x - of_int f
      in if r < 1 / 2 then f else if 1 / 2 < r then f + 1 else if even f then f else f + 1)"

definition binade :: "real \<Rightarrow> int" where
  "binade x =
     (if 1 \<le> x then int (floorlog 2 (nat \<lfloor>x\<rfloor>)) - 1
      else - int (floorlog 2 (nat (\<lceil>1 / x\<rceil> - 1))))"

definition fl :: "real \<Rightarrow> real" where
  "fl x =
     (if x = 0 then 0
      else let u = 2 powi (binade \<bar>x\<bar> - 52)
           in sgn x * of_int (round_half_even (\<bar>x\<bar> / u)) * u)"

text \<open>
  \<open>float(n)\<close> for an integer, and \<open>+\<close>, \<open>-\<close>, \<open>/\<close> on floats. An integer
  operand of a mixed operation is converted first. A float literal such as
  \<open>0.001\<close> is \<open>fl (1 / 1000)\<close>.
\<close>

definition float_of_int :: "int \<Rightarrow> real" where
  "float_of_int n = fl (of_int n)"

definition float_add :: "real \<Rightarrow> real \<Rightarrow> real" where
  "float_add x y = fl (x + y)"

definition float_sub :: "real \<Rightarrow> real \<Rightarrow> real" where
  "float_sub x y = fl (x - y)"

definition float_truediv :: "real \<Rightarrow> real \<Rightarrow> real" where
  "float_truediv x y = fl (x / y)"

section \<open>The chunker (preprocess\_chunk.py)\<close>

text \<open>
  The fields of \<open>self\<close> that the methods read. \<open>seq_length\<close> may be \<open>None\<close>;
  the tokenizer is an external collaborator, a function from a string to its tokens.
\<close>

record 't chunker =
  seq_length :: "int option"
  token_seq_length :: int
  parallelize :: bool
  cpu_count :: int
  tokenizer :: "string \<Rightarrow> 't list"

subsection \<open>chunk\_based\_on\_seq\_len\<close>

text \<open>
  The loop state is \<open>(temp_new_chunk_list, temp_sent)\<close>. Comparing a length with
  \<open>None\<close> raises \<open>TypeError\<close>.
\<close>

definition seq_step ::
  "'t chunker \<Rightarrow> string list \<times> string \<Rightarrow> string \<Rightarrow> error + string list \<times> string" where
  "seq_step self st sent =
     (let temp_sent = snd st @ '' '' @ sent
      in case seq_length self of
           None \<Rightarrow> Inl TypeError
         | Some n \<Rightarrow>
             if int (length (split temp_sent)) > n
             then Inr (fst st @ [strip temp_sent], '''')
             else Inr (fst st, temp_sent))"

fun seq_loop ::
  "'t chunker \<Rightarrow> string list \<times> string \<Rightarrow> string list \<Rightarrow> error + string list \<times> string" where
  "seq_loop self st [] = Inr st"
| "seq_loop self st (sent # rest) =
     (case seq_step self st sent of
        Inl e \<Rightarrow> Inl e
      | Inr st' \<Rightarrow> seq_loop self st' rest)"

definition chunk_based_on_seq_len :: "'t chunker \<Rightarrow> string list \<Rightarrow> error + string list" where
  "chunk_based_on_seq_len self sent_list =
     (case seq_loop self ([], '''') sent_list of
        Inl e \<Rightarrow> Inl e
      | Inr st \<Rightarrow> Inr (fst st))"

subsection \<open>prev\_chunk\_based\_on\_token\_seq\_len\<close>

record chunk_state =
  temp_new_chunk_list :: "string list"
  temp_sent :: string
  temp_sent_list :: "string list"

definition init_state :: chunk_state where
  "init_state = \<lparr>temp_new_chunk_list = [], temp_sent = '''', temp_sent_list = []\<rparr>"

text \<open>One iteration of the loop body, lines 37 to 42.\<close>

definition prev_step :: "'t chunker \<Rightarrow> chunk_state \<Rightarrow> string \<Rightarrow> error + chunk_state" where
  "prev_step self st sent =
     (let acc = temp_sent st @ '' '' @ sent;
          hist = temp_sent_list st @ [strip acc]
      in case py_index hist (- 1) of
           Inl e \<Rightarrow> Inl e
         | Inr newest \<Rightarrow>
             if int (length (tokenizer self newest)) > token_seq_length self
             then (case py_index hist (- 2) of
                     Inl e \<Rightarrow> Inl e
                   | Inr prev \<Rightarrow>
                       Inr \<lparr>temp_new_chunk_list = temp_new_chunk_list st @ [prev],
                            temp_sent = '''', temp_sent_list = hist\<rparr>)
             else Inr \<lparr>temp_new_chunk_list = temp_new_chunk_list st,
                       temp_sent = acc, temp_sent_list = hist\<rparr>)"

fun prev_loop :: "'t chunker \<Rightarrow> chunk_state \<Rightarrow> string list \<Rightarrow> error + chunk_state" where
  "prev_loop self st [] = Inr st"
| "prev_loop self st (sent # rest) =
     (case prev_step self st sent of
        Inl e \<Rightarrow> Inl e
      | Inr st' \<Rightarrow> prev_loop self st' rest)"

definition prev_chunk_based_on_token_seq_len ::
  "'t chunker \<Rightarrow> string list \<Rightarrow> error + string list" where
  "prev_chunk_based_on_token_seq_len self sent_list =
     (case prev_loop self init_state sent_list of
        Inl e \<Rightarrow> Inl e
      | Inr st \<Rightarrow> Inr (temp_new_chunk_list st))"

subsection \<open>parallel\_chunker\_prev\_chunk\_based\_on\_token\_seq\_len\<close>

text \<open>
  NumPy keeps strings in a fixed-width array, padded with NUL characters: a string
  read back from an array has lost its trailing NUL characters. \<open>np_array\<close> is a
  list of strings after the passage through an array.
\<close>

definition rstrip_nul :: "string \<Rightarrow> string" where
  "rstrip_nul s = rev (dropWhile (\<lambda>c. c = CHR 0x00) (rev s))"

definition np_array :: "string list \<Rightarrow> string list" where
  "np_array xs = map rstrip_nul xs"

text \<open>
  \<open>numpy.array_split(ary, n)\<close> as NumPy implements it: \<open>ValueError\<close> unless
  \<open>n > 0\<close>; otherwise the list becomes an array, cut from left to right into
  \<open>len(ary) mod n\<close> sections of \<open>len(ary) div n + 1\<close> elements followed by
  sections of \<open>len(ary) div n\<close> elements.
\<close>

fun sub_arys :: "nat list \<Rightarrow> 'a list \<Rightarrow> 'a list list" where
  "sub_arys [] ary = []"
| "sub_arys (k # ks) ary = take k ary # sub_arys ks (drop k ary)"

definition section_sizes :: "nat \<Rightarrow> nat \<Rightarrow> nat list" where
  "section_sizes Ntotal Nsections =
     replicate (Ntotal mod Nsections) (Ntotal div Nsections + 1)
       @ replicate (Nsections - Ntotal mod Nsections) (Ntotal div Nsections)"

definition array_split :: "string list \<Rightarrow> int \<Rightarrow> error + string list list" where
  "array_split ary n =
     (if n \<le> 0 then Inl ValueError
      else Inr (sub_arys (section_sizes (length ary) (nat n)) (np_array ary)))"

text \<open>
  The worker pool returns the results of the calls in the order of the slices; an
  exception raised by a worker is raised again in the caller.
\<close>

fun parallel :: "('a \<Rightarrow> error + 'b) \<Rightarrow> 'a list \<Rightarrow> error + 'b list" where
  "parallel f [] = Inr []"
| "parallel f (x # xs) =
     (case f x of
        Inl e \<Rightarrow> Inl e
      | Inr y \<Rightarrow> (case parallel f xs of Inl e \<Rightarrow> Inl e | Inr ys \<Rightarrow> Inr (y # ys)))"

text \<open>
  \<open>np.concatenate(...).ravel().tolist()\<close> joins the chunk lists into one array
  of strings and reads it back as a list.
\<close>

definition parallel_chunker_prev_chunk_based_on_token_seq_len ::
  "'t chunker \<Rightarrow> string list \<Rightarrow> error + string list" where
  "parallel_chunker_prev_chunk_based_on_token_seq_len self sent_list =
     (case array_split sent_list (cpu_count self) of
        Inl e \<Rightarrow> Inl e
      | Inr sent_list_chunks \<Rightarrow>
          (case parallel (prev_chunk_based_on_token_seq_len self) sent_list_chunks of
             Inl e \<Rightarrow> Inl e
           | Inr list_of_temp_new_chunk_list \<Rightarrow>
               Inr (np_array (concat list_of_temp_new_chunk_list))))"

subsection \<open>chunker\_function\_\<close>

text \<open>The method \<open>chunker_function_\<close> (an identifier cannot end in an underscore
  here, so the constant is \<open>chunker_function\<close>) returns a string on the
  short-input path and a list otherwise.\<close>

datatype chunked = Joined string | Chunks "string list"

definition chunker_function :: "'t chunker \<Rightarrow> string list \<Rightarrow> error + chunked" where
  "chunker_function self sent_list =
     (if length sent_list < 10 then Inr (Joined (join '' '' sent_list))
      else if seq_length self = None then
        (if parallelize self
         then map_sum id Chunks (parallel_chunker_prev_chunk_based_on_token_seq_len self sent_list)
         else map_sum id Chunks (prev_chunk_based_on_token_seq_len self sent_list))
      else map_sum id Chunks (chunk_based_on_seq_len self sent_list))"

subsection \<open>The parallel strategy as the specification words it\<close>


section \<open>The quality filter (word\_cleaner.py)\<close>

text \<open>
  The fields of \<open>Word_Cleaner\<close>; the thresholds are floats, the word threshold is
  an integer. \<open>Word_Cleaner_defaults\<close> holds the default arguments of the
  constructor.
\<close>

record word_cleaner =
  counting_avg :: real
  number_ratio :: real
  short_word_threshold :: int

definition Word_Cleaner_defaults :: word_cleaner where
  "Word_Cleaner_defaults =
     \<lparr>counting_avg = fl (65 / 100), number_ratio = fl (7 / 10), short_word_threshold = 7\<rparr>"

text \<open>
  \<open>_has_numbers\<close>: \<open>re.search(r"\d", inputString)\<close> finds a decimal digit; below
  code point 256 these are \<open>0\<close> to \<open>9\<close>.
\<close>

definition has_numbers :: "string \<Rightarrow> bool" where
  "has_numbers inputString = list_ex (\<lambda>c. c \<in> set ''0123456789'') inputString"

subsection \<open>counting\_length\_of\_letters\_and\_if\_to\_many\_remove\<close>

text \<open>
  The inner loop over the words, on the counter \<open>(long, short)\<close>, and the average
  computed from it (lines 70 to 83).
\<close>

fun count_word_length :: "string list \<Rightarrow> nat \<times> nat \<Rightarrow> nat \<times> nat" where
  "count_word_length [] counter = counter"
| "count_word_length (word # rest) (long, short) =
     (if length word > 1 then count_word_length rest (long + 1, short)
      else count_word_length rest (long, short + 1))"

definition counter_avg :: "string \<Rightarrow> real" where
  "counter_avg sent =
     (let splitted_sent = split sent;
          counter_word_length = count_word_length splitted_sent (0, 0);
          long = fst counter_word_length;
          short = snd counter_word_length;
          counter_ratio =
            float_truediv (float_add (float_of_int (int long)) (fl (1 / 2)))
                          (float_add (float_of_int (int short)) (fl (1 / 1000)));
          counter_ratio_len =
            float_sub (float_of_int 1)
              (float_truediv (float_of_int (int short))
                 (float_add (float_of_int (int (length splitted_sent))) (fl (1 / 10))))
      in float_truediv (float_add counter_ratio counter_ratio_len) (float_of_int 2))"

text \<open>The outer loop, with \<open>new_sent_list\<close> as its state.\<close>

fun letters_loop :: "word_cleaner \<Rightarrow> string list \<Rightarrow> string list \<Rightarrow> string list" where
  "letters_loop self new_sent_list [] = new_sent_list"
| "letters_loop self new_sent_list (sent # rest) =
     (if counter_avg sent > counting_avg self
      then letters_loop self (new_sent_list @ [sent]) rest
      else if int (length (split sent)) < short_word_threshold self
      then letters_loop self (new_sent_list @ [sent]) rest
      else letters_loop self new_sent_list rest)"

definition counting_length_of_letters_and_if_to_many_remove ::
  "word_cleaner \<Rightarrow> string list \<Rightarrow> string list" where
  "counting_length_of_letters_and_if_to_many_remove self sent_list =
     letters_loop self [] sent_list"

subsection \<open>counting\_sequence\_length\_of\_numbers\<close>

fun count_digit_words :: "string list \<Rightarrow> nat \<times> nat \<Rightarrow> nat \<times> nat" where
  "count_digit_words [] counter = counter"
| "count_digit_words (word # rest) (digit, not_digit) =
     (if has_numbers word then count_digit_words rest (digit + 1, not_digit)
      else count_digit_words rest (digit, not_digit + 1))"

definition digit_ratio :: "string \<Rightarrow> real" where
  "digit_ratio sent =
     (let splitted_sent = split sent;
          counter_word_length = count_digit_words splitted_sent (0, 0);
          digit = fst counter_word_length;
          not_digit = snd counter_word_length
      in float_truediv (float_of_int (int digit))
           (float_add (float_of_int (int not_digit)) (fl (1 / 100))))"

fun numbers_loop :: "word_cleaner \<Rightarrow> string list \<Rightarrow> string list \<Rightarrow> string list" where
  "numbers_loop self new_sent_list [] = new_sent_list"
| "numbers_loop self new_sent_list (sent # rest) =
     (if \<not> has_numbers sent then numbers_loop self (new_sent_list @ [sent]) rest
      else if digit_ratio sent < number_ratio self
      then numbers_loop self (new_sent_list @ [sent]) rest
      else numbers_loop self new_sent_list rest)"

definition counting_sequence_length_of_numbers ::
  "word_cleaner \<Rightarrow> string list \<Rightarrow> string list" where
  "counting_sequence_length_of_numbers self sent_list = numbers_loop self [] sent_list"

subsection \<open>clean\_pipe\<close>

definition clean_pipe :: "word_cleaner \<Rightarrow> string list \<Rightarrow> string list" where
  "clean_pipe self sent_list =
     counting_sequence_length_of_numbers self
       (counting_length_of_letters_and_if_to_many_remove self sent_list)"

subsection \<open>The letter-length average as the specification words it\<close>

text \<open>
  \<open>long\<close> counts the words longer than one character, \<open>short\<close> the others;
  \<open>ratio = (long + 0.5) / (short + 0.001)\<close>,
  \<open>ratio_len = 1 - (short / (word_count + 0.1))\<close> and
  \<open>avg = (ratio + ratio_len) / 2\<close>, in float arithmetic.
\<close>

definition spec_avg :: "string \<Rightarrow> real" where
  "spec_avg sent =
     (let long = length (filter (\<lambda>word. 1 < length word) (split sent));
          short = length (filter (\<lambda>word. length word \<le> 1) (split sent));
          word_count = length (split sent);
          ratio = float_truediv (float_add (float_of_int (int long)) (fl (1 / 2)))
                                (float_add (float_of_int (int short)) (fl (1 / 1000)));
          ratio_len = float_sub (float_of_int 1)
                        (float_truediv (float_of_int (int short))
                           (float_add (float_of_int (int word_count)) (fl (1 / 10))))
      in float_truediv (float_add ratio ratio_len) (float_of_int 2))"

section \<open>Properties of the chunker\<close>

text \<open>
  C9. An input of fewer than ten sentences is returned as one string, the sentences
  joined by single spaces, whatever the budgets are; the nine one-letter sentences
  \<open>a\<close> to \<open>i\<close> give \<open>a b c d e f g h i\<close>.
\<close>

theorem chunker_function_short_input:
  "(length sent_list < 10 \<longrightarrow>
      chunker_function self sent_list = Inr (Joined (join '' '' sent_list)))
   \<and> chunker_function self [''a'', ''b'', ''c'', ''d'', ''e'', ''f'', ''g'', ''h'', ''i'']
       = Inr (Joined ''a b c d e f g h i'')"
  by (simp add: chunker_function_def)

theorem chunker_function_short_input_witness:
  "length [''x y'', ''z''] < 10
   \<and> chunker_function
        \<lparr>seq_length = Some 1, token_seq_length = 0, parallelize = True, cpu_count = 2,
         tokenizer = split\<rparr> [''x y'', ''z'']
       = Inr (Joined ''x y z'')"
  using chunker_function_short_input
    [of "[''x y'', ''z'']"
        "\<lparr>seq_length = Some 1, token_seq_length = 0, parallelize = True, cpu_count = 2,
          tokenizer = split\<rparr>"]
  by simp

subsection \<open>Strings and indexing\<close>

lemma strip_leading_space: "strip (CHR '' '' # s) = strip s"
  by (simp add: strip_def isspace_def)

lemma py_index_last: "py_index (xs @ [x]) (- 1) = Inr x"
  by (simp add: py_index_def)

lemma py_index_prev: "py_index (xs @ [y, x]) (- 2) = Inr y"
  by (simp add: py_index_def nth_append)

lemma py_index_last_of_two: "py_index (xs @ [y, x]) (- 1) = Inr x"
  using py_index_last [of "xs @ [y]" x] by simp

subsection \<open>Overflow at the first sentence\<close>

text \<open>
  C3. When the first sentence alone, once stripped, has more tokens than
  \<open>token_seq_length\<close>, the history holds one snapshot, the read of index \<open>-2\<close>
  is out of range, and the run ends in \<open>IndexError\<close> instead of a chunk list.
\<close>

theorem first_sentence_overflow_raises:
  assumes "int (length (tokenizer self (strip sent))) > token_seq_length self"
  shows "prev_chunk_based_on_token_seq_len self (sent # rest) = Inl IndexError"
proof -
  have "prev_step self init_state sent = Inl IndexError"
    using assms
    by (simp add: prev_step_def init_state_def Let_def strip_leading_space py_index_def)
  then show ?thesis
    by (simp add: prev_chunk_based_on_token_seq_len_def)
qed

theorem first_sentence_overflow_raises_witness:
  "int (length (split (strip ''d e f''))) > 2
   \<and> prev_chunk_based_on_token_seq_len
        \<lparr>seq_length = None, token_seq_length = 2, parallelize = False, cpu_count = 1,
         tokenizer = split\<rparr> [''d e f'', ''g''] = Inl IndexError"
proof -
  have h: "int (length (tokenizer
              \<lparr>seq_length = None, token_seq_length = 2, parallelize = False, cpu_count = 1,
               tokenizer = split\<rparr> (strip ''d e f'')))
           > token_seq_length
              \<lparr>seq_length = None, token_seq_length = 2, parallelize = False, cpu_count = 1,
               tokenizer = split\<rparr>"
    by (simp add: split_def strip_def isspace_def)
  from first_sentence_overflow_raises [OF h, of "[''g'']"] h show ?thesis by simp
qed

subsection \<open>The emitted chunk after a reset\<close>

text \<open>
  C1 (the code departs from the claim). With a tokenizer that counts words and a budget
  of two tokens, the input \<open>a b\<close>, \<open>c\<close>, \<open>d e f\<close> overflows at the second and
  at the third sentence. After the second sentence the accumulator \<open>temp_sent\<close> is
  empty, so the accumulator as it was before \<open>d e f\<close> was appended is empty; the
  third step nevertheless emits \<open>a b c\<close>, the snapshot that the second step left
  in the history.
\<close>

theorem overflow_after_reset_emits_stale_snapshot:
  "prev_loop
     \<lparr>seq_length = None, token_seq_length = 2, parallelize = False, cpu_count = 1,
      tokenizer = split\<rparr> init_state [''a b'', ''c'']
     = Inr \<lparr>temp_new_chunk_list = [''a b''], temp_sent = '''',
            temp_sent_list = [''a b'', ''a b c'']\<rparr>
   \<and> prev_step
     \<lparr>seq_length = None, token_seq_length = 2, parallelize = False, cpu_count = 1,
      tokenizer = split\<rparr>
     \<lparr>temp_new_chunk_list = [''a b''], temp_sent = '''',
      temp_sent_list = [''a b'', ''a b c'']\<rparr> ''d e f''
     = Inr \<lparr>temp_new_chunk_list = [''a b'', ''a b c''], temp_sent = '''',
            temp_sent_list = [''a b'', ''a b c'', ''d e f'']\<rparr>"
  by (simp add: init_state_def prev_step_def py_index_def split_def strip_def isspace_def)

text \<open>
  What every overflow step does when the history already holds a snapshot: it emits
  that snapshot, the newest one before this step, and empties the accumulator.
\<close>

lemma prev_step_overflow:
  assumes "temp_sent_list st = hist @ [p]"
    and "int (length (tokenizer self (strip (temp_sent st @ '' '' @ sent))))
           > token_seq_length self"
  shows "prev_step self st sent
           = Inr \<lparr>temp_new_chunk_list = temp_new_chunk_list st @ [p], temp_sent = '''',
                  temp_sent_list = temp_sent_list st @ [strip (temp_sent st @ '' '' @ sent)]\<rparr>"
  using assms by (simp add: prev_step_def Let_def py_index_last_of_two py_index_prev)

text \<open>
  Along a run the newest snapshot is the stripped accumulator whenever the accumulator
  is not empty. So an overflow step that finds a non-empty accumulator emits exactly
  the accumulator as it was before the sentence was appended, stripped, as the claim
  says; the step that finds it empty (the first step, or the step after another
  overflow) is the one that departs.
\<close>

lemma prev_step_history:
  assumes "prev_step self st sent = Inr st'"
  shows "temp_sent_list st' = temp_sent_list st @ [strip (temp_sent st @ '' '' @ sent)]
         \<and> (temp_sent st' = '''' \<or> temp_sent st' = temp_sent st @ '' '' @ sent)"
  using assms
  by (auto simp: prev_step_def Let_def py_index_last split: if_splits sum.splits)

lemma prev_step_snapshot:
  assumes "prev_step self st sent = Inr st'" and "temp_sent st' \<noteq> ''''"
  shows "temp_sent_list st' \<noteq> [] \<and> last (temp_sent_list st') = strip (temp_sent st')"
  using prev_step_history [OF assms(1)] assms(2) by auto

lemma prev_loop_snapshot:
  assumes "prev_loop self st sent_list = Inr st'"
    and "temp_sent st \<noteq> '''' \<Longrightarrow>
           temp_sent_list st \<noteq> [] \<and> last (temp_sent_list st) = strip (temp_sent st)"
    and "temp_sent st' \<noteq> ''''"
  shows "temp_sent_list st' \<noteq> [] \<and> last (temp_sent_list st') = strip (temp_sent st')"
  using assms
proof (induction sent_list arbitrary: st)
  case Nil
  then show ?case by simp
next
  case (Cons sent rest)
  from Cons.prems(1) obtain st1 where
    step: "prev_step self st sent = Inr st1" and loop: "prev_loop self st1 rest = Inr st'"
    by (auto split: sum.splits)
  show ?case
    by (rule Cons.IH [OF loop _ Cons.prems(3)]) (rule prev_step_snapshot [OF step])
qed

lemma overflow_emits_accumulator:
  assumes "prev_loop self init_state before = Inr st"
    and "temp_sent st \<noteq> ''''"
    and "int (length (tokenizer self (strip (temp_sent st @ '' '' @ sent))))
           > token_seq_length self"
  shows "prev_step self st sent
           = Inr \<lparr>temp_new_chunk_list = temp_new_chunk_list st @ [strip (temp_sent st)],
                  temp_sent = '''',
                  temp_sent_list = temp_sent_list st @ [strip (temp_sent st @ '' '' @ sent)]\<rparr>"
proof -
  have "temp_sent_list st \<noteq> [] \<and> last (temp_sent_list st) = strip (temp_sent st)"
    by (rule prev_loop_snapshot [OF assms(1) _ assms(2)]) (simp add: init_state_def)
  then have "temp_sent_list st = butlast (temp_sent_list st) @ [strip (temp_sent st)]"
    by (metis append_butlast_last_id)
  from prev_step_overflow [OF this assms(3)] show ?thesis .
qed

text \<open>
  C2 (the code departs from the claim). On the same input the run returns the chunks
  \<open>a b\<close> and \<open>a b c\<close>: the first sentence is in both.
\<close>

theorem sentence_in_two_chunks:
  "prev_chunk_based_on_token_seq_len
     \<lparr>seq_length = None, token_seq_length = 2, parallelize = False, cpu_count = 1,
      tokenizer = split\<rparr> [''a b'', ''c'', ''d e f'']
     = Inr [''a b'', ''a b c'']"
  by (simp add: prev_chunk_based_on_token_seq_len_def init_state_def prev_step_def
      py_index_def split_def strip_def isspace_def)

text \<open>
  The word-count strategy emits the accumulator itself and then empties it: its chunks
  are built from consecutive segments of the input that do not overlap, so no
  sentence occurrence is in two chunks.
\<close>

lemma seq_loop_segments:
  assumes "seq_loop self (chunks, foldl (\<lambda>acc sent. acc @ '' '' @ sent) '''' cur) rest
             = Inr (chunks', a')"
  shows "\<exists>segs cur'. cur @ rest = concat segs @ cur'
           \<and> chunks' = chunks @ map (\<lambda>seg. strip (foldl (\<lambda>acc sent. acc @ '' '' @ sent) '''' seg)) segs
           \<and> a' = foldl (\<lambda>acc sent. acc @ '' '' @ sent) '''' cur'"
  using assms
proof (induction rest arbitrary: chunks cur)
  case Nil
  then have "cur @ [] = concat [] @ cur \<and> chunks' = chunks @ map (\<lambda>seg. strip (foldl (\<lambda>acc sent. acc @ '' '' @ sent) '''' seg)) []
     \<and> a' = foldl (\<lambda>acc sent. acc @ '' '' @ sent) '''' cur"
    by simp
  then show ?case by blast
next
  case (Cons sent rest)
  let ?F = "\<lambda>seg. strip (foldl (\<lambda>acc sent. acc @ '' '' @ sent) '''' seg)"
  let ?acc = "foldl (\<lambda>acc sent. acc @ '' '' @ sent) '''' (cur @ [sent])"
  from Cons.prems obtain n where n: "seq_length self = Some n"
    by (auto simp: seq_step_def Let_def split: option.splits)
  show ?case
  proof (cases "int (length (split ?acc)) > n")
    case True
    then have "seq_step self (chunks, foldl (\<lambda>acc sent. acc @ '' '' @ sent) '''' cur) sent
                 = Inr (chunks @ [?F (cur @ [sent])], foldl (\<lambda>acc sent. acc @ '' '' @ sent) '''' [])"
      using n by (simp add: seq_step_def Let_def)
    with Cons.prems have "seq_loop self (chunks @ [?F (cur @ [sent])], foldl (\<lambda>acc sent. acc @ '' '' @ sent) '''' []) rest = Inr (chunks', a')"
      by simp
    from Cons.IH [OF this] obtain segs cur' where
      "[] @ rest = concat segs @ cur'" "chunks' = (chunks @ [?F (cur @ [sent])]) @ map ?F segs"
      "a' = foldl (\<lambda>acc sent. acc @ '' '' @ sent) '''' cur'"
      by blast
    then have "cur @ sent # rest = concat ((cur @ [sent]) # segs) @ cur'
         \<and> chunks' = chunks @ map ?F ((cur @ [sent]) # segs)
         \<and> a' = foldl (\<lambda>acc sent. acc @ '' '' @ sent) '''' cur'"
      by simp
    then show ?thesis by blast
  next
    case False
    then have "seq_step self (chunks, foldl (\<lambda>acc sent. acc @ '' '' @ sent) '''' cur) sent
                 = Inr (chunks, ?acc)"
      using n by (simp add: seq_step_def Let_def)
    with Cons.prems have "seq_loop self (chunks, ?acc) rest = Inr (chunks', a')"
      by simp
    from Cons.IH [OF this] obtain segs cur' where
      "(cur @ [sent]) @ rest = concat segs @ cur'" "chunks' = chunks @ map ?F segs"
      "a' = foldl (\<lambda>acc sent. acc @ '' '' @ sent) '''' cur'"
      by blast
    then have "cur @ sent # rest = concat segs @ cur'
         \<and> chunks' = chunks @ map ?F segs
         \<and> a' = foldl (\<lambda>acc sent. acc @ '' '' @ sent) '''' cur'"
      by simp
    then show ?thesis by blast
  qed
qed

lemma word_count_chunks_disjoint:
  assumes "chunk_based_on_seq_len self sent_list = Inr chunks"
  shows "\<exists>segs rest. sent_list = concat segs @ rest
           \<and> chunks = map (\<lambda>seg. strip (foldl (\<lambda>acc sent. acc @ '' '' @ sent) '''' seg)) segs"
proof -
  from assms obtain a where "seq_loop self ([], foldl (\<lambda>acc sent. acc @ '' '' @ sent) '''' []) sent_list = Inr (chunks, a)"
    by (auto simp: chunk_based_on_seq_len_def split: sum.splits)
  from seq_loop_segments [OF this] show ?thesis
    by auto
qed

subsection \<open>No overflow, no chunk\<close>

text \<open>
  While no step crosses the budget the accumulator is never reset: after \<open>k\<close>
  sentences it is \<open>foldl (\<lambda>acc sent. acc @ '' '' @ sent) '''' (take k sent_list)\<close>,
  the value that \<open>temp_sent += " " + sent\<close> builds.
\<close>

lemma seq_loop_no_overflow:
  assumes "seq_length self = Some n"
    and "\<forall>k\<in>{1..length rest}.
           int (length (split (foldl (\<lambda>acc sent. acc @ '' '' @ sent) a (take k rest)))) \<le> n"
  shows "seq_loop self (chunks, a) rest
           = Inr (chunks, foldl (\<lambda>acc sent. acc @ '' '' @ sent) a rest)"
  using assms(2)
proof (induction rest arbitrary: a)
  case Nil
  show ?case by simp
next
  case (Cons s rest)
  have one: "int (length (split (a @ '' '' @ s))) \<le> n"
    using Cons.prems by (auto dest: bspec [where x = 1])
  have step: "seq_step self (chunks, a) s = Inr (chunks, a @ '' '' @ s)"
    using one assms(1) by (simp add: seq_step_def Let_def)
  have "\<forall>k\<in>{1..length rest}.
          int (length (split (foldl (\<lambda>acc sent. acc @ '' '' @ sent) (a @ '' '' @ s) (take k rest)))) \<le> n"
  proof
    fix k assume "k \<in> {1..length rest}"
    then have "Suc k \<in> {1..length (s # rest)}" by simp
    from Cons.prems [rule_format, OF this] show
      "int (length (split (foldl (\<lambda>acc sent. acc @ '' '' @ sent) (a @ '' '' @ s) (take k rest)))) \<le> n"
      by simp
  qed
  from Cons.IH [OF this] step show ?case by simp
qed

lemma prev_loop_no_overflow:
  assumes "\<forall>k\<in>{1..length rest}.
           int (length (tokenizer self
                  (strip (foldl (\<lambda>acc sent. acc @ '' '' @ sent) (temp_sent st) (take k rest)))))
             \<le> token_seq_length self"
  shows "\<exists>st'. prev_loop self st rest = Inr st'
               \<and> temp_new_chunk_list st' = temp_new_chunk_list st"
  using assms
proof (induction rest arbitrary: st)
  case Nil
  show ?case by simp
next
  case (Cons s rest)
  let ?acc = "temp_sent st @ '' '' @ s"
  let ?st' = "\<lparr>temp_new_chunk_list = temp_new_chunk_list st, temp_sent = ?acc,
               temp_sent_list = temp_sent_list st @ [strip ?acc]\<rparr>"
  have one: "int (length (tokenizer self (strip ?acc))) \<le> token_seq_length self"
    using Cons.prems by (auto dest: bspec [where x = 1])
  have step: "prev_step self st s = Inr ?st'"
    using one by (simp add: prev_step_def Let_def py_index_last)
  have "\<forall>k\<in>{1..length rest}.
          int (length (tokenizer self
                 (strip (foldl (\<lambda>acc sent. acc @ '' '' @ sent) (temp_sent ?st') (take k rest)))))
            \<le> token_seq_length self"
  proof
    fix k assume "k \<in> {1..length rest}"
    then have "Suc k \<in> {1..length (s # rest)}" by simp
    from Cons.prems [rule_format, OF this] show
      "int (length (tokenizer self
              (strip (foldl (\<lambda>acc sent. acc @ '' '' @ sent) (temp_sent ?st') (take k rest)))))
            \<le> token_seq_length self"
      by simp
  qed
  from Cons.IH [OF this] step show ?case by simp
qed

text \<open>
  C8. When the running word count never exceeds \<open>seq_length\<close>, the word-count
  strategy returns no chunk; when the token count of the running snapshot never
  exceeds \<open>token_seq_length\<close>, the tokenizer-budget strategy returns no chunk.
  Whatever was accumulated, up to and including the last sentence, is dropped.
\<close>

theorem no_overflow_no_chunks:
  "(seq_length self = Some n \<longrightarrow>
    (\<forall>k\<in>{1..length sent_list}.
       int (length (split (foldl (\<lambda>acc sent. acc @ '' '' @ sent) '''' (take k sent_list)))) \<le> n) \<longrightarrow>
    chunk_based_on_seq_len self sent_list = Inr [])
   \<and>
   ((\<forall>k\<in>{1..length sent_list}.
       int (length (tokenizer self
              (strip (foldl (\<lambda>acc sent. acc @ '' '' @ sent) '''' (take k sent_list)))))
         \<le> token_seq_length self) \<longrightarrow>
    prev_chunk_based_on_token_seq_len self sent_list = Inr [])"
proof (intro conjI impI)
  assume "seq_length self = Some n"
    and "\<forall>k\<in>{1..length sent_list}.
       int (length (split (foldl (\<lambda>acc sent. acc @ '' '' @ sent) '''' (take k sent_list)))) \<le> n"
  from seq_loop_no_overflow [OF this, of "[]"]
  show "chunk_based_on_seq_len self sent_list = Inr []"
    by (simp add: chunk_based_on_seq_len_def)
next
  assume "\<forall>k\<in>{1..length sent_list}.
       int (length (tokenizer self
              (strip (foldl (\<lambda>acc sent. acc @ '' '' @ sent) '''' (take k sent_list)))))
         \<le> token_seq_length self"
  then have "\<forall>k\<in>{1..length sent_list}.
       int (length (tokenizer self
              (strip (foldl (\<lambda>acc sent. acc @ '' '' @ sent) (temp_sent init_state)
                        (take k sent_list)))))
         \<le> token_seq_length self"
    by (simp add: init_state_def)
  from prev_loop_no_overflow [OF this]
  show "prev_chunk_based_on_token_seq_len self sent_list = Inr []"
    by (auto simp: prev_chunk_based_on_token_seq_len_def init_state_def)
qed

theorem no_overflow_no_chunks_witness:
  "int (length (split '' a b'')) \<le> 5 \<and> int (length (split '' a b c'')) \<le> 5
   \<and> chunk_based_on_seq_len
        \<lparr>seq_length = Some 5, token_seq_length = 4, parallelize = False, cpu_count = 1,
         tokenizer = split\<rparr> [''a b'', ''c''] = Inr []
   \<and> int (length (split (strip '' a b''))) \<le> 4 \<and> int (length (split (strip '' a b c''))) \<le> 4
   \<and> prev_chunk_based_on_token_seq_len
        \<lparr>seq_length = Some 5, token_seq_length = 4, parallelize = False, cpu_count = 1,
         tokenizer = split\<rparr> [''a b'', ''c''] = Inr []"
proof -
  let ?self = "\<lparr>seq_length = Some 5, token_seq_length = 4, parallelize = False, cpu_count = 1,
                tokenizer = split\<rparr>"
  have ks: "{1..length [''a b'', ''c'']} = {1, 2 :: nat}"
    by auto
  have w1: "int (length (split '' a b'')) \<le> 5" "int (length (split '' a b c'')) \<le> 5"
    by (simp_all add: split_def isspace_def)
  have w2: "int (length (split (strip '' a b''))) \<le> 4"
    "int (length (split (strip '' a b c''))) \<le> 4"
    by (simp_all add: split_def strip_def isspace_def)
  have h1: "\<forall>k\<in>{1..length [''a b'', ''c'']}.
       int (length (split (foldl (\<lambda>acc sent. acc @ '' '' @ sent) '''' (take k [''a b'', ''c''])))) \<le> 5"
    unfolding ks using w1 by simp
  have h2: "\<forall>k\<in>{1..length [''a b'', ''c'']}.
       int (length (tokenizer ?self
              (strip (foldl (\<lambda>acc sent. acc @ '' '' @ sent) '''' (take k [''a b'', ''c''])))))
         \<le> token_seq_length ?self"
    unfolding ks using w2 by simp
  have s: "seq_length ?self = Some 5"
    by simp
  from no_overflow_no_chunks [of ?self 5 "[''a b'', ''c'']"] s h1 h2 w1 w2
  show ?thesis by blast
qed

subsection \<open>The parallel strategy\<close>




















text \<open>
  A sentence that ends in a NUL character loses it in the array: the chunk is
  \<open>a\<close>, not \<open>a\<close> followed by NUL.
\<close>

lemma parallel_drops_trailing_nul:
  "parallel_chunker_prev_chunk_based_on_token_seq_len
     \<lparr>seq_length = None, token_seq_length = 1, parallelize = True, cpu_count = 1,
      tokenizer = split\<rparr> [[CHR ''a'', CHR 0x00], ''b c'']
     = Inr [''a'']"
  by (simp add: parallel_chunker_prev_chunk_based_on_token_seq_len_def array_split_def
      section_sizes_def np_array_def rstrip_nul_def
      prev_chunk_based_on_token_seq_len_def init_state_def prev_step_def py_index_def
      split_def strip_def isspace_def)

section \<open>Properties of the float model\<close>

lemmas fl_eval = fl_def binade_def round_half_even_def Let_def compute_floorlog power_int_minus

text \<open>
  The literals of the source and the default thresholds, as binary64 has them
  (\<open>0.1\<close> is \<open>0x3FB999999999999A\<close>, \<open>0.001\<close> is \<open>0x3F50624DD2F1A9FC\<close>).
\<close>

lemma fl_literals:
  "fl (1 / 10) = 3602879701896397 / 2 ^ 55"
  "fl (1 / 100) = 5764607523034235 / 2 ^ 59"
  "fl (1 / 1000) = 1152921504606847 / 2 ^ 60"
  "fl (1 / 2) = 1 / 2"
  "fl (65 / 100) = 5854679515581645 / 2 ^ 53"
  "fl (7 / 10) = 3152519739159347 / 2 ^ 52"
  by (simp_all add: fl_eval)

lemma round_half_even_ge_floor: "\<lfloor>x\<rfloor> \<le> round_half_even x"
  by (simp add: round_half_even_def Let_def)

lemma binade_le:
  assumes "0 < x"
  shows "2 powi binade x \<le> x"
proof (cases "1 \<le> x")
  case True
  let ?n = "nat \<lfloor>x\<rfloor>"
  have n: "0 < ?n"
    using True by simp
  have L: "1 \<le> floorlog 2 ?n"
    using n floorlog_eq_zero_iff [of 2 ?n] by (cases "floorlog 2 ?n") simp_all
  have "2 ^ (floorlog 2 ?n - 1) \<le> ?n"
    using floorlog_bounds [of ?n 2] n by simp
  then have "(2::real) ^ (floorlog 2 ?n - 1) \<le> of_nat ?n"
    by (metis of_nat_le_iff of_nat_numeral of_nat_power)
  also have "\<dots> \<le> x"
    using True by simp
  finally have "(2::real) ^ (floorlog 2 ?n - 1) \<le> x" .
  moreover have "binade x = int (floorlog 2 ?n - 1)"
    using True L by (simp add: binade_def)
  ultimately show ?thesis
    by (simp add: power_int_def)
next
  case False
  let ?m = "nat (\<lceil>1 / x\<rceil> - 1)"
  let ?L = "floorlog 2 ?m"
  have "1 < 1 / x"
    using False assms by simp
  then have c: "2 \<le> \<lceil>1 / x\<rceil>"
    by linarith
  then have m: "0 < ?m"
    by simp
  have "?m < 2 ^ ?L"
    using floorlog_bounds [of ?m 2] m by simp
  then have "int ?m < 2 ^ ?L"
    by (metis of_nat_less_iff of_nat_numeral of_nat_power)
  moreover have "0 \<le> \<lceil>1 / x\<rceil> - 1"
    using c by linarith
  then have "int ?m = \<lceil>1 / x\<rceil> - 1"
    by (simp only: int_nat_eq if_True)
  ultimately have "\<lceil>1 / x\<rceil> \<le> 2 ^ ?L"
    by linarith
  then have "1 / x \<le> 2 ^ ?L"
    by (metis ceiling_le_iff of_int_numeral of_int_power)
  then have "1 / 2 ^ ?L \<le> x"
    using assms by (simp add: field_simps)
  moreover have "binade x = - int ?L"
    using False by (simp add: binade_def)
  ultimately show ?thesis
    by (simp add: power_int_minus field_simps)
qed

lemma fl_pos:
  assumes "0 < x"
  shows "0 < fl x"
proof -
  let ?u = "(2::real) powi (binade x - 52)"
  have u: "0 < ?u"
    by simp
  have "?u \<le> 2 powi binade x"
    by (rule power_int_increasing) simp_all
  also have "\<dots> \<le> x"
    by (rule binade_le [OF assms])
  finally have "1 \<le> x / ?u"
    using u by (simp add: field_simps)
  then have "1 \<le> \<lfloor>x / ?u\<rfloor>"
    by simp
  then have "1 \<le> round_half_even (x / ?u)"
    using round_half_even_ge_floor [of "x / ?u"] by linarith
  then have "0 < (of_int (round_half_even (x / ?u)) :: real)"
    by simp
  then have "0 < of_int (round_half_even (x / ?u)) * ?u"
    using u by simp
  then show ?thesis
    using assms by (simp add: fl_def Let_def)
qed

lemma fl_nonneg: "0 \<le> x \<Longrightarrow> 0 \<le> fl x"
  using fl_pos [of x] by (cases "x = 0") (simp_all add: fl_def less_imp_le)

text \<open>
  \<open>fl x\<close> is a binary64 value nearest to \<open>x\<close>: its significand is an integer of
  at most 53 bits at the exponent of \<open>x\<close>, and it is within half a unit in the
  last place of \<open>x\<close>.
\<close>

lemma round_half_even_near: "\<bar>of_int (round_half_even x) - x\<bar> \<le> 1 / 2"
proof -
  have "of_int \<lfloor>x\<rfloor> \<le> x" "x < of_int \<lfloor>x\<rfloor> + 1"
    by linarith+
  then show ?thesis
    by (auto simp: round_half_even_def Let_def)
qed

lemma binade_gt:
  assumes "0 < x"
  shows "x < 2 powi (binade x + 1)"
proof (cases "1 \<le> x")
  case True
  let ?n = "nat \<lfloor>x\<rfloor>"
  have n: "0 < ?n"
    using True by simp
  have "?n < 2 ^ floorlog 2 ?n"
    using floorlog_bounds [of ?n 2] n by simp
  then have "int ?n < 2 ^ floorlog 2 ?n"
    by (metis of_nat_less_iff of_nat_numeral of_nat_power)
  then have "\<lfloor>x\<rfloor> < 2 ^ floorlog 2 ?n"
    using True by simp
  then have "x < 2 ^ floorlog 2 ?n"
    by (metis floor_less_iff of_int_numeral of_int_power)
  moreover have "binade x + 1 = int (floorlog 2 ?n)"
    using True by (simp add: binade_def)
  ultimately show ?thesis
    by simp
next
  case False
  let ?m = "nat (\<lceil>1 / x\<rceil> - 1)"
  let ?L = "floorlog 2 ?m"
  have "1 < 1 / x"
    using False assms by simp
  then have c: "2 \<le> \<lceil>1 / x\<rceil>"
    by linarith
  then have m: "0 < ?m"
    by simp
  have L: "1 \<le> ?L"
    using m floorlog_eq_zero_iff [of 2 ?m] by (cases ?L) simp_all
  have "2 ^ (?L - 1) \<le> ?m"
    using floorlog_bounds [of ?m 2] m by simp
  then have "2 ^ (?L - 1) \<le> int ?m"
    by (metis of_nat_le_iff of_nat_numeral of_nat_power)
  moreover have "0 \<le> \<lceil>1 / x\<rceil> - 1"
    using c by linarith
  then have "int ?m = \<lceil>1 / x\<rceil> - 1"
    by (simp only: int_nat_eq if_True)
  ultimately have "2 ^ (?L - 1) < \<lceil>1 / x\<rceil>"
    by linarith
  then have "2 ^ (?L - 1) < 1 / x"
    by (metis less_ceiling_iff of_int_numeral of_int_power)
  then have "x < 1 / 2 ^ (?L - 1)"
    using assms by (simp add: field_simps)
  moreover have "binade x + 1 = - int (?L - 1)"
    using False L by (simp add: binade_def)
  ultimately show ?thesis
    by (simp add: power_int_minus field_simps)
qed

lemma abs_scale:
  fixes a b u :: real
  assumes "0 < u"
  shows "\<bar>a - b / u\<bar> * u = \<bar>a * u - b\<bar>"
proof -
  have "\<bar>a - b / u\<bar> * u = \<bar>(a - b / u) * u\<bar>"
    using assms by (simp add: abs_mult)
  also have "(a - b / u) * u = a * u - b"
    using assms by (simp add: field_simps)
  finally show ?thesis .
qed

lemma fl_error: "\<bar>fl x - x\<bar> \<le> 2 powi (binade \<bar>x\<bar> - 53)"
proof (cases "x = 0")
  case True
  then show ?thesis by (simp add: fl_def)
next
  case False
  let ?u = "(2::real) powi (binade \<bar>x\<bar> - 52)"
  let ?r = "real_of_int (round_half_even (\<bar>x\<bar> / ?u))"
  have u: "0 < ?u" by simp
  have "\<bar>?r - \<bar>x\<bar> / ?u\<bar> \<le> 1 / 2"
    by (rule round_half_even_near)
  then have "\<bar>?r - \<bar>x\<bar> / ?u\<bar> * ?u \<le> 1 / 2 * ?u"
    using u by simp
  moreover have "\<bar>?r - \<bar>x\<bar> / ?u\<bar> * ?u = \<bar>?r * ?u - \<bar>x\<bar>\<bar>"
    by (rule abs_scale [OF u])
  moreover have "1 / 2 * ?u = 2 powi (binade \<bar>x\<bar> - 53)"
    by (simp add: power_int_diff)
  ultimately have "\<bar>?r * ?u - \<bar>x\<bar>\<bar> \<le> 2 powi (binade \<bar>x\<bar> - 53)"
    by simp
  moreover have "\<bar>fl x - x\<bar> = \<bar>?r * ?u - \<bar>x\<bar>\<bar>"
  proof (cases "0 < x")
    case True
    then show ?thesis by (simp add: fl_def Let_def)
  next
    case neg: False
    with False have "x < 0" by simp
    then have "fl x - x = - (?r * ?u - \<bar>x\<bar>)"
      by (simp add: fl_def Let_def)
    then show ?thesis by (simp only: abs_minus_cancel)
  qed
  ultimately show ?thesis by simp
qed

lemma fl_significand:
  assumes "x \<noteq> 0"
  shows "\<exists>m. \<bar>fl x\<bar> = of_int m * 2 powi (binade \<bar>x\<bar> - 52) \<and> 2 ^ 52 \<le> m \<and> m \<le> 2 ^ 53"
proof -
  let ?u = "(2::real) powi (binade \<bar>x\<bar> - 52)"
  let ?y = "\<bar>x\<bar> / ?u"
  have u: "0 < ?u" by simp
  have pos: "0 < \<bar>x\<bar>" using assms by simp
  have "2 powi binade \<bar>x\<bar> \<le> \<bar>x\<bar>" by (rule binade_le [OF pos])
  then have lo: "2 ^ 52 \<le> ?y"
    using u by (simp add: field_simps power_int_diff)
  have "\<bar>x\<bar> < 2 powi (binade \<bar>x\<bar> + 1)" by (rule binade_gt [OF pos])
  then have hi: "?y < 2 ^ 53"
    using u by (simp add: field_simps power_int_diff power_int_add)
  have "(2::int) ^ 52 \<le> \<lfloor>?y\<rfloor>"
    using lo by (metis le_floor_iff of_int_numeral of_int_power)
  then have m_lo: "2 ^ 52 \<le> round_half_even ?y"
    using round_half_even_ge_floor [of ?y] by linarith
  have "\<lfloor>?y\<rfloor> < (2::int) ^ 53"
    using hi by (metis floor_less_iff of_int_numeral of_int_power)
  moreover have "round_half_even ?y \<le> \<lfloor>?y\<rfloor> + 1"
    by (simp add: round_half_even_def Let_def)
  ultimately have m_hi: "round_half_even ?y \<le> 2 ^ 53"
    by linarith
  have "0 \<le> real_of_int (round_half_even ?y)"
    using m_lo by simp
  then have "\<bar>fl x\<bar> = of_int (round_half_even ?y) * ?u"
    using assms by (simp add: fl_def Let_def abs_mult abs_sgn_eq)
  with m_lo m_hi show ?thesis by blast
qed

lemma float_add_pos: "0 \<le> x \<Longrightarrow> 0 < y \<Longrightarrow> 0 < float_add x y"
  by (simp add: float_add_def fl_pos)

lemma float_of_int_nonneg: "0 \<le> float_of_int (int n)"
  by (simp add: float_of_int_def fl_nonneg)

text \<open>
  The divisors of the two passes are positive, so no division of the source raises
  \<open>ZeroDivisionError\<close>; the model has no branch for it.
\<close>

lemma divisors_positive:
  "0 < float_add (float_of_int (int n)) (fl (1 / 1000))"
  "0 < float_add (float_of_int (int n)) (fl (1 / 10))"
  "0 < float_add (float_of_int (int n)) (fl (1 / 100))"
  by (rule float_add_pos, rule float_of_int_nonneg, rule fl_pos, simp)+

section \<open>Properties of the quality filter\<close>

lemma count_word_length_filter:
  "count_word_length ws (long, short)
     = (long + length (filter (\<lambda>word. 1 < length word) ws),
        short + length (filter (\<lambda>word. length word \<le> 1) ws))"
  by (induction ws arbitrary: long short) auto

lemma counter_avg_spec: "counter_avg sent = spec_avg sent"
  by (simp add: counter_avg_def spec_avg_def count_word_length_filter Let_def)

lemma letters_loop_filter:
  "letters_loop self new_sent_list sent_list
     = new_sent_list @ filter (\<lambda>sent. counting_avg self < counter_avg sent
                               \<or> int (length (split sent)) < short_word_threshold self) sent_list"
  by (induction sent_list arbitrary: new_sent_list) auto

lemma numbers_loop_filter:
  "numbers_loop self new_sent_list sent_list
     = new_sent_list @ filter (\<lambda>sent. \<not> has_numbers sent
                               \<or> digit_ratio sent < number_ratio self) sent_list"
  by (induction sent_list arbitrary: new_sent_list) auto

text \<open>
  C5. Pass A returns, in input order, exactly the sentences for which
  \<open>avg > counting_avg\<close> or the word count is below \<open>short_word_threshold\<close>,
  with \<open>avg\<close> computed from the counts of long and short words as the
  specification gives it (\<open>spec_avg\<close>).
\<close>

theorem pass_a_keeps_exactly:
  "counting_length_of_letters_and_if_to_many_remove self sent_list
     = filter (\<lambda>sent. counting_avg self < spec_avg sent
                      \<or> int (length (split sent)) < short_word_threshold self) sent_list"
  by (simp add: counting_length_of_letters_and_if_to_many_remove_def letters_loop_filter
      counter_avg_spec)

text \<open>
  C6. Each pass, run on its own output with the same thresholds, returns that output
  unchanged.
\<close>

theorem passes_idempotent:
  "counting_length_of_letters_and_if_to_many_remove self
     (counting_length_of_letters_and_if_to_many_remove self sent_list)
     = counting_length_of_letters_and_if_to_many_remove self sent_list
   \<and> counting_sequence_length_of_numbers self
     (counting_sequence_length_of_numbers self sent_list)
     = counting_sequence_length_of_numbers self sent_list"
  by (simp add: counting_length_of_letters_and_if_to_many_remove_def letters_loop_filter
      counting_sequence_length_of_numbers_def numbers_loop_filter)

text \<open>
  C7. \<open>clean_pipe\<close> never returns more sentences than it was given, and returns
  the empty list for the empty list.
\<close>

theorem clean_pipe_shrinks:
  "length (clean_pipe self sent_list) \<le> length sent_list \<and> clean_pipe self [] = []"
proof
  have "length (clean_pipe self sent_list)
          \<le> length (counting_length_of_letters_and_if_to_many_remove self sent_list)"
    by (simp add: clean_pipe_def counting_sequence_length_of_numbers_def numbers_loop_filter)
  also have "\<dots> \<le> length sent_list"
    by (simp add: counting_length_of_letters_and_if_to_many_remove_def letters_loop_filter)
  finally show "length (clean_pipe self sent_list) \<le> length sent_list" .
  show "clean_pipe self [] = []"
    by (simp add: clean_pipe_def counting_sequence_length_of_numbers_def
        counting_length_of_letters_and_if_to_many_remove_def)
qed

subsection \<open>Sentences without words\<close>

lemma split_aux_Nil: "split_aux w s = [] \<longleftrightarrow> w = [] \<and> list_all isspace s"
  by (induction s arbitrary: w) auto

lemma split_Nil: "split s = [] \<longleftrightarrow> list_all isspace s"
  by (simp add: split_def split_aux_Nil)

lemma isspace_not_digit: "isspace c \<Longrightarrow> c \<notin> set ''0123456789''"
  by (auto simp: isspace_def)

lemma zero_words_no_digit:
  assumes "split s = []"
  shows "\<not> has_numbers s"
proof
  assume "has_numbers s"
  then obtain c where "c \<in> set s" and "c \<in> set ''0123456789''"
    unfolding has_numbers_def list_ex_iff by blast
  moreover have "\<forall>c\<in>set s. isspace c"
    using assms by (simp add: split_Nil list_all_iff)
  ultimately show False
    using isspace_not_digit by blast
qed

text \<open>
  With no word, \<open>counter_ratio\<close> is \<open>0.5 / 0.001 = 500.0\<close>, \<open>counter_ratio_len\<close>
  is \<open>1.0\<close> and the average is \<open>250.5\<close>, all exactly in binary64.
\<close>

lemma zero_words_avg:
  assumes "split s = []"
  shows "counter_avg s = 501 / 2"
proof -
  have zero: "fl 0 = 0"
    by (simp add: fl_def)
  have half: "fl (1 / 2) = 1 / 2"
    by (simp add: fl_eval)
  have milli: "fl (1 / 1000) = 1152921504606847 / 1152921504606846976"
    by (simp add: fl_eval)
  have milli2: "fl (1152921504606847 / 1152921504606846976)
                  = 1152921504606847 / 1152921504606846976"
    by (simp add: fl_eval)
  have ratio: "fl (576460752303423488 / 1152921504606847) = 500"
    by (simp add: fl_eval)
  have tenth: "fl (1 / 10) = 3602879701896397 / 36028797018963968"
    by (simp add: fl_eval)
  have tenth2: "fl (3602879701896397 / 36028797018963968)
                  = 3602879701896397 / 36028797018963968"
    by (simp add: fl_eval)
  have one: "fl 1 = 1"
    by (simp add: fl_eval)
  have two: "fl 2 = 2"
    by (simp add: fl_eval)
  have sum: "fl 501 = 501"
    by (simp add: fl_eval)
  have avg: "fl (501 / 2) = 501 / 2"
    by (simp add: fl_eval)
  show ?thesis
    by (simp add: counter_avg_def assms float_add_def float_sub_def float_truediv_def
        float_of_int_def zero half milli milli2 ratio tenth tenth2 one two sum avg)
qed

text \<open>
  C10. When \<open>counting_avg < 250.5\<close>, every sentence without a word (empty, or of
  space characters only) is in the output of \<open>clean_pipe\<close>: the sentences
  without words of the output are those of the input, unchanged and in order.
\<close>

theorem zero_word_sentences_survive:
  assumes "counting_avg self < 501 / 2"
  shows "filter (\<lambda>sent. split sent = []) (clean_pipe self sent_list)
           = filter (\<lambda>sent. split sent = []) sent_list
         \<and> (\<forall>sent\<in>set sent_list. split sent = [] \<longrightarrow> sent \<in> set (clean_pipe self sent_list))"
proof -
  have "filter (\<lambda>sent. split sent = []) (clean_pipe self sent_list)
          = filter (\<lambda>sent. (counting_avg self < counter_avg sent
                             \<or> int (length (split sent)) < short_word_threshold self)
                          \<and> (\<not> has_numbers sent \<or> digit_ratio sent < number_ratio self)
                          \<and> split sent = []) sent_list"
    by (simp add: clean_pipe_def counting_sequence_length_of_numbers_def numbers_loop_filter
        counting_length_of_letters_and_if_to_many_remove_def letters_loop_filter)
  also have "\<dots> = filter (\<lambda>sent. split sent = []) sent_list"
    using assms by (intro filter_cong refl) (auto simp: zero_words_avg zero_words_no_digit)
  finally have eq: "filter (\<lambda>sent. split sent = []) (clean_pipe self sent_list)
                      = filter (\<lambda>sent. split sent = []) sent_list" .
  have "sent \<in> set (clean_pipe self sent_list)"
    if "sent \<in> set sent_list" and "split sent = []" for sent
  proof -
    from that have "sent \<in> set (filter (\<lambda>sent. split sent = []) sent_list)"
      by simp
    then have "sent \<in> set (filter (\<lambda>sent. split sent = []) (clean_pipe self sent_list))"
      by (simp only: eq)
    then show ?thesis
      by simp
  qed
  with eq show ?thesis
    by blast
qed

theorem zero_word_sentences_survive_witness:
  "counting_avg Word_Cleaner_defaults < 501 / 2
   \<and> filter (\<lambda>sent. split sent = [])
        (clean_pipe Word_Cleaner_defaults ['''', ''a b c d e f g'', ''   ''])
       = ['''', ''   '']
   \<and> '''' \<in> set (clean_pipe Word_Cleaner_defaults ['''', ''a b c d e f g'', ''   ''])
   \<and> ''   '' \<in> set (clean_pipe Word_Cleaner_defaults ['''', ''a b c d e f g'', ''   ''])"
proof -
  have h: "counting_avg Word_Cleaner_defaults < 501 / 2"
    by (simp add: Word_Cleaner_defaults_def fl_eval)
  have z: "split '''' = []" "split ''   '' = []"
    by (simp_all add: split_def isspace_def)
  from zero_word_sentences_survive [OF h, of "['''', ''a b c d e f g'', ''   '']"] h z
  show ?thesis
    by (simp add: split_def isspace_def)
qed

end
